theory Spec2Isabelle
  imports Main "HOL-Library.AList" "HOL-Library.Multiset"
begin

section \<open>Grouping patient records by name: a model of \<^verbatim>\<open>vital.py\<close>\<close>

text \<open>
  The script reads rows of a CSV file (each row a list of strings), groups them by a key
  computed from the second field (the patient name), prints the groups, sorts every group
  by the number in the first field (the patient id) in descending order and prints the
  groups again.

  Strings are modelled as \<^typ>\<open>string\<close>, and the operations on characters
  (\<^verbatim>\<open>str.lower\<close>, the digits and blanks read by \<^verbatim>\<open>int\<close>) are those of ASCII text:
  a character outside ASCII is left alone by \<open>lower\<close> and is rejected by \<open>py_int\<close>.
  A row is a list of strings of any length, as \<^verbatim>\<open>csv.reader\<close> produces it.
  A dictionary is an association list with distinct keys, in insertion order.
  Every \<^verbatim>\<open>raise\<close> is a value \<open>Inl e\<close> of a sum type.
\<close>

subsection \<open>Errors\<close>

datatype py_error = Exception string | IndexError | KeyError | ValueError

subsection \<open>Strings\<close>

definition ascii_uppercase :: string where
  "ascii_uppercase = ''ABCDEFGHIJKLMNOPQRSTUVWXYZ''"

definition ascii_lowercase :: string where
  "ascii_lowercase = ''abcdefghijklmnopqrstuvwxyz''"

definition lower_char :: "char \<Rightarrow> char" where
  "lower_char c =
     (case map_of (zip ascii_uppercase ascii_lowercase) c of None \<Rightarrow> c | Some l \<Rightarrow> l)"

text \<open>\<^verbatim>\<open>s.lower()\<close>\<close>

definition lower :: "string \<Rightarrow> string" where
  "lower s = map lower_char s"

text \<open>\<^verbatim>\<open>s.split(sep)\<close> for a separator of one character: one more part than separators.\<close>

fun split :: "char \<Rightarrow> string \<Rightarrow> string list" where
  "split sep [] = [[]]"
| "split sep (c # cs) =
     (if c = sep then [] # split sep cs
      else (case split sep cs of [] \<Rightarrow> [[c]] | p # ps \<Rightarrow> (c # p) # ps))"

text \<open>\<^verbatim>\<open>sep.join(parts)\<close>\<close>

fun join :: "string \<Rightarrow> string list \<Rightarrow> string" where
  "join sep [] = []"
| "join sep [x] = x"
| "join sep (x # y # ys) = x @ sep @ join sep (y # ys)"

definition digits :: string where
  "digits = ''0123456789''"

definition isdigit :: "char \<Rightarrow> bool" where
  "isdigit c = (c \<in> set digits)"

definition digit_value :: "char \<Rightarrow> nat" where
  "digit_value c = length (takeWhile (\<lambda>d. d \<noteq> c) digits)"

text \<open>The blanks that \<^verbatim>\<open>int\<close> skips: tab, line feed, vertical tab, form feed, carriage return, space.\<close>

definition isspace :: "char \<Rightarrow> bool" where
  "isspace c = (c \<in> set [CHR 0x09, CHR 0x0A, CHR 0x0B, CHR 0x0C, CHR 0x0D, CHR '' ''])"

text \<open>\<^verbatim>\<open>str(n)\<close> for a natural number, as \<^verbatim>\<open>'{0}:'.format(counter)\<close> prints it.\<close>

function str_nat :: "nat \<Rightarrow> string" where
  "str_nat n = (if n < 10 then [digits ! n] else str_nat (n div 10) @ [digits ! (n mod 10)])"
  by pat_completeness auto
termination
  by (relation "measure (\<lambda>n. n)") auto

declare str_nat.simps [simp del]

text \<open>The value of a string of decimal digits.\<close>

definition decimal :: "string \<Rightarrow> nat" where
  "decimal ds = foldl (\<lambda>acc c. 10 * acc + digit_value c) 0 ds"

text \<open>
  \<^verbatim>\<open>int(s)\<close> in base 10: blanks are skipped, one sign is read, then digits with single
  underscores between them up to the first other character, which may only be followed by
  blanks. The text between sign and blanks must start and end with a digit.
  The limit that an interpreter may put on the number of digits is not modelled.
\<close>

definition isbody :: "char \<Rightarrow> bool" where
  "isbody c = (isdigit c \<or> c = CHR ''_'')"

fun double_underscore :: "string \<Rightarrow> bool" where
  "double_underscore (a # b # cs) = ((a = CHR ''_'' \<and> b = CHR ''_'') \<or> double_underscore (b # cs))"
| "double_underscore _ = False"

definition py_int :: "string \<Rightarrow> py_error + int" where
  "py_int s =
     (let s1 = dropWhile isspace s;
          negative = (s1 \<noteq> [] \<and> hd s1 = CHR ''-'');
          s2 = (if s1 \<noteq> [] \<and> (hd s1 = CHR ''+'' \<or> hd s1 = CHR ''-'') then tl s1 else s1);
          body = takeWhile isbody s2;
          rest = dropWhile isspace (dropWhile isbody s2)
      in if body = [] \<or> hd body = CHR ''_'' \<or> last body = CHR ''_'' \<or> double_underscore body
            \<or> rest \<noteq> []
         then Inl ValueError
         else (let n = int (decimal (filter isdigit body)) in Inr (if negative then - n else n)))"

subsection \<open>Lists and dictionaries\<close>

type_synonym row = "string list"

type_synonym names_dict = "(string \<times> row list) list"

text \<open>\<^verbatim>\<open>xs[i]\<close> for an index that is not negative.\<close>

definition getitem :: "'a list \<Rightarrow> nat \<Rightarrow> py_error + 'a" where
  "getitem xs i = (if i < length xs then Inr (xs ! i) else Inl IndexError)"

text \<open>\<^verbatim>\<open>d.setdefault(k, v)\<close>: a new key goes to the end, a known key changes nothing.\<close>

definition setdefault :: "'k \<Rightarrow> 'v \<Rightarrow> ('k \<times> 'v) list \<Rightarrow> ('k \<times> 'v) list" where
  "setdefault k v d = (case map_of d k of None \<Rightarrow> d @ [(k, v)] | Some _ \<Rightarrow> d)"

text \<open>\<^verbatim>\<open>d[k]\<close>\<close>

definition dict_getitem :: "('k \<times> 'v) list \<Rightarrow> 'k \<Rightarrow> py_error + 'v" where
  "dict_getitem d k = (case map_of d k of None \<Rightarrow> Inl KeyError | Some v \<Rightarrow> Inr v)"

text \<open>\<^verbatim>\<open>d[k].append(x)\<close>: the list stored under \<open>k\<close> grows at its end, in place.\<close>

definition dict_append :: "'k \<Rightarrow> 'a \<Rightarrow> ('k \<times> 'a list) list \<Rightarrow> py_error + ('k \<times> 'a list) list" where
  "dict_append k x d =
     (case dict_getitem d k of Inl e \<Rightarrow> Inl e | Inr v \<Rightarrow> Inr (AList.update k (v @ [x]) d))"

subsection \<open>The functions of the script\<close>

definition createKey :: "string \<Rightarrow> py_error + string" where
  "createKey completeName =
     (let completeName = lower completeName;
          name = split CHR ''^'' completeName;
          nameLength = length name
      in if nameLength = 2 then Inr completeName
         else if nameLength = 3 then Inr (name ! 0 @ ''^'' @ name ! 1)
         else Inl (Exception ''Name is not in a proper structure''))"

text \<open>\<^verbatim>\<open>createKey(item[1])\<close>, the key of a row.\<close>

definition row_key :: "row \<Rightarrow> py_error + string" where
  "row_key item = (case getitem item 1 of Inl e \<Rightarrow> Inl e | Inr name \<Rightarrow> createKey name)"

text \<open>The body of the loop of \<^verbatim>\<open>createDictionary\<close>, and the loop.\<close>

definition createDictionary_body :: "names_dict \<Rightarrow> row \<Rightarrow> py_error + names_dict" where
  "createDictionary_body namesDictionary item =
     (case row_key item of
        Inl e \<Rightarrow> Inl e
      | Inr currentKey \<Rightarrow> dict_append currentKey item (setdefault currentKey [] namesDictionary))"

fun createDictionary_loop :: "names_dict \<Rightarrow> row list \<Rightarrow> py_error + names_dict" where
  "createDictionary_loop namesDictionary [] = Inr namesDictionary"
| "createDictionary_loop namesDictionary (item # data) =
     (case createDictionary_body namesDictionary item of
        Inl e \<Rightarrow> Inl e
      | Inr d \<Rightarrow> createDictionary_loop d data)"

definition createDictionary :: "row list \<Rightarrow> py_error + names_dict" where
  "createDictionary data = createDictionary_loop [] data"

text \<open>\<^verbatim>\<open>printOutput\<close> returns the lines it prints, one string for each call of \<^verbatim>\<open>print\<close>.\<close>

fun printOutput_loop :: "nat \<Rightarrow> names_dict \<Rightarrow> string list" where
  "printOutput_loop counter [] = []"
| "printOutput_loop counter ((key, value) # rest) =
     (str_nat counter @ '':'') # map (join '','') value @ printOutput_loop (counter + 1) rest"

definition printOutput :: "names_dict \<Rightarrow> string list" where
  "printOutput namesDictionary = printOutput_loop 0 namesDictionary"

definition extractNumber :: "string \<Rightarrow> py_error + int" where
  "extractNumber str = py_int (drop 3 str)"

text \<open>The sort key \<^verbatim>\<open>lambda arr: extractNumber(arr[0])\<close>.\<close>

definition pid_key :: "row \<Rightarrow> py_error + int" where
  "pid_key arr = (case getitem arr 0 of Inl e \<Rightarrow> Inl e | Inr pid \<Rightarrow> extractNumber pid)"

text \<open>
  \<^verbatim>\<open>v.sort(key=f, reverse=True)\<close>: the keys of all elements are computed first, in order, and
  the first failure is raised with the list unchanged; then the list is reversed, sorted
  by a stable ascending sort on the keys, and reversed again.
\<close>

fun compute_keys :: "('a \<Rightarrow> py_error + 'k) \<Rightarrow> 'a list \<Rightarrow> py_error + ('k \<times> 'a) list" where
  "compute_keys f [] = Inr []"
| "compute_keys f (x # xs) =
     (case f x of
        Inl e \<Rightarrow> Inl e
      | Inr k \<Rightarrow> (case compute_keys f xs of Inl e \<Rightarrow> Inl e | Inr ks \<Rightarrow> Inr ((k, x) # ks)))"

definition sort_reverse :: "('a \<Rightarrow> py_error + int) \<Rightarrow> 'a list \<Rightarrow> py_error + 'a list" where
  "sort_reverse f v =
     (case compute_keys f v of
        Inl e \<Rightarrow> Inl e
      | Inr kv \<Rightarrow> Inr (map snd (rev (sort_key fst (rev kv)))))"

text \<open>
  \<^verbatim>\<open>sortDictbyPidDesc\<close> sorts the groups in the order of the dictionary and stops at the
  first failure. It returns the dictionary it was given, sorted in place.
\<close>

fun sortDictbyPidDesc :: "names_dict \<Rightarrow> py_error + names_dict" where
  "sortDictbyPidDesc [] = Inr []"
| "sortDictbyPidDesc ((key, v) # rest) =
     (case sort_reverse pid_key v of
        Inl e \<Rightarrow> Inl e
      | Inr v' \<Rightarrow> (case sortDictbyPidDesc rest of Inl e \<Rightarrow> Inl e | Inr rest' \<Rightarrow> Inr ((key, v') # rest')))"

text \<open>
  \<^verbatim>\<open>main\<close> from the rows that \<^verbatim>\<open>readInputFile\<close> returned: the lines printed up to the end
  or up to the exception, and how the run ended.
\<close>

definition marker :: string where
  "marker = ''Different version, sorted by PID number''"

definition main :: "row list \<Rightarrow> string list \<times> (py_error + unit)" where
  "main data =
     (case createDictionary data of
        Inl e \<Rightarrow> ([], Inl e)
      | Inr namesDictionary \<Rightarrow>
          (let out = printOutput namesDictionary @ [marker] in
           case sortDictbyPidDesc namesDictionary of
             Inl e \<Rightarrow> (out, Inl e)
           | Inr sortedDictionary \<Rightarrow> (out @ printOutput sortedDictionary, Inr ())))"

subsection \<open>Notions used to state the properties\<close>

text \<open>
  The distinct elements of a list in the order of their first occurrence; the first error
  and the successful results in a list of results; the table that sends every key, in the
  order of first occurrence, to the rows with that key in input order; and the position
  of the first row with a given key.
\<close>

fun first_seen :: "'a list \<Rightarrow> 'a list" where
  "first_seen [] = []"
| "first_seen (x # xs) = x # removeAll x (first_seen xs)"

fun first_error :: "('e + 'a) list \<Rightarrow> 'e option" where
  "first_error [] = None"
| "first_error (Inl e # xs) = Some e"
| "first_error (Inr v # xs) = first_error xs"

fun successes :: "('e + 'a) list \<Rightarrow> 'a list" where
  "successes [] = []"
| "successes (Inl e # xs) = successes xs"
| "successes (Inr v # xs) = v # successes xs"

definition group_spec :: "row list \<Rightarrow> names_dict" where
  "group_spec data =
     map (\<lambda>k. (k, filter (\<lambda>r. row_key r = Inr k) data)) (first_seen (successes (map row_key data)))"








text \<open>The number of a row, where its id has one.\<close>

definition pid_num :: "row \<Rightarrow> int" where
  "pid_num r = (case pid_key r of Inl e \<Rightarrow> 0 | Inr n \<Rightarrow> n)"

definition first_pos :: "string \<Rightarrow> row list \<Rightarrow> nat" where
  "first_pos k data = length (takeWhile (\<lambda>r. row_key r \<noteq> Inr k) data)"

section \<open>Strings: lower case and splitting\<close>













section \<open>The key of a name\<close>





section \<open>Grouping\<close>

lemma set_first_seen: "set (first_seen xs) = set xs"
  by (induction xs) auto

lemma distinct_first_seen: "distinct (first_seen xs)"
  by (induction xs) (auto simp: set_first_seen distinct_removeAll)

lemma first_seen_snoc:
  "first_seen (xs @ [k]) = (if k \<in> set xs then first_seen xs else first_seen xs @ [k])"
  by (induction xs) (auto simp: set_first_seen)

lemma first_error_snoc:
  "first_error (xs @ [x]) =
     (case first_error xs of Some e \<Rightarrow> Some e | None \<Rightarrow> (case x of Inl e \<Rightarrow> Some e | Inr v \<Rightarrow> None))"
  by (induction xs rule: first_error.induct) (auto split: sum.splits)

lemma successes_snoc:
  "successes (xs @ [x]) = successes xs @ (case x of Inl e \<Rightarrow> [] | Inr v \<Rightarrow> [v])"
  by (induction xs rule: successes.induct) (auto split: sum.splits)

lemma in_successes: "k \<in> set (successes xs) \<longleftrightarrow> Inr k \<in> set xs"
  by (induction xs rule: successes.induct) auto

lemma first_error_None: "first_error xs = None \<longleftrightarrow> (\<forall>x \<in> set xs. \<exists>v. x = Inr v)"
  by (induction xs rule: first_error.induct) auto

lemma createDictionary_loop_snoc:
  "createDictionary_loop d (xs @ [x]) =
     (case createDictionary_loop d xs of Inl e \<Rightarrow> Inl e | Inr d' \<Rightarrow> createDictionary_body d' x)"
  by (induction xs arbitrary: d) (auto split: sum.splits)

lemma update_new_last: "map_of d k = None \<Longrightarrow> AList.update k v (d @ [(k, w)]) = d @ [(k, v)]"
  by (induction d) (auto split: if_splits)

lemma createDictionary_body_eq:
  "createDictionary_body d item =
     (case row_key item of
        Inl e \<Rightarrow> Inl e
      | Inr k \<Rightarrow> Inr (case map_of d k of None \<Rightarrow> d @ [(k, [item])]
                      | Some v \<Rightarrow> AList.update k (v @ [item]) d))"
  by (auto simp: createDictionary_body_def dict_append_def dict_getitem_def setdefault_def
      update_new_last map_add_def split: sum.splits option.splits)

lemma update_tabulated:
  "distinct ks \<Longrightarrow> k \<in> set ks \<Longrightarrow>
   AList.update k v (map (\<lambda>k'. (k', f k')) ks) = map (\<lambda>k'. (k', if k' = k then v else f k')) ks"
  by (induction ks) auto

lemma map_of_tabulated:
  "map_of (map (\<lambda>k. (k, f k)) ks) k = (if k \<in> set ks then Some (f k) else None)"
  by (induction ks) auto

lemma group_spec_step:
  assumes "row_key x = Inr k"
  shows "createDictionary_body (group_spec data) x = Inr (group_spec (data @ [x]))"
proof (cases "k \<in> set (successes (map row_key data))")
  case True
  then show ?thesis using assms
    by (auto simp: createDictionary_body_eq group_spec_def map_of_tabulated set_first_seen
        successes_snoc first_seen_snoc update_tabulated distinct_first_seen)
next
  case False
  then have "filter (\<lambda>r. row_key r = Inr k) data = []"
    by (force simp: in_successes filter_empty_conv)
  then show ?thesis using assms False
    by (auto simp: createDictionary_body_eq group_spec_def map_of_tabulated set_first_seen
        successes_snoc first_seen_snoc)
qed

lemma createDictionary_eq:
  "createDictionary data =
     (case first_error (map row_key data) of Some e \<Rightarrow> Inl e | None \<Rightarrow> Inr (group_spec data))"
proof (induction data rule: rev_induct)
  case Nil
  then show ?case by (simp add: createDictionary_def group_spec_def)
next
  case (snoc x xs)
  show ?case
  proof (cases "first_error (map row_key xs)")
    case (Some e)
    then show ?thesis using snoc
      by (simp add: createDictionary_def createDictionary_loop_snoc first_error_snoc)
  next
    case None
    then have loop: "createDictionary_loop [] xs = Inr (group_spec xs)"
      using snoc by (simp add: createDictionary_def)
    show ?thesis
    proof (cases "row_key x")
      case (Inl e)
      then show ?thesis using None loop
        by (simp add: createDictionary_def createDictionary_loop_snoc first_error_snoc
            createDictionary_body_def)
    next
      case (Inr k)
      then show ?thesis using None loop group_spec_step [OF Inr, of xs]
        by (simp add: createDictionary_def createDictionary_loop_snoc first_error_snoc)
    qed
  qed
qed


lemma mset_filter_disjoint:
  "(\<And>x. x \<in> set xs \<Longrightarrow> \<not> (P x \<and> Q x)) \<Longrightarrow>
   mset (filter P xs) + mset (filter Q xs) = mset (filter (\<lambda>x. P x \<or> Q x) xs)"
  by (induction xs) auto

lemma mset_concat_groups:
  "distinct ks \<Longrightarrow>
   mset (concat (map (\<lambda>k. filter (\<lambda>r. f r = Inr k) data) ks))
     = mset (filter (\<lambda>r. \<exists>k \<in> set ks. f r = Inr k) data)"
proof (induction ks)
  case Nil
  then show ?case by simp
next
  case (Cons k ks)
  have "mset (filter (\<lambda>r. f r = Inr k) data) + mset (filter (\<lambda>r. \<exists>k \<in> set ks. f r = Inr k) data)
      = mset (filter (\<lambda>r. f r = Inr k \<or> (\<exists>k \<in> set ks. f r = Inr k)) data)"
    using Cons.prems by (intro mset_filter_disjoint) auto
  then show ?case using Cons by simp
qed

lemma group_spec_mset:
  assumes "\<forall>r \<in> set data. \<exists>k. row_key r = Inr k"
  shows "mset (concat (map snd (group_spec data))) = mset data"
proof -
  let ?ks = "first_seen (successes (map row_key data))"
  have "\<exists>k \<in> set (successes (map row_key data)). row_key r = Inr k" if "r \<in> set data" for r
  proof -
    from assms that have "\<exists>k. row_key r = Inr k" by (rule bspec)
    then obtain k where k: "row_key r = Inr k" ..
    then have "Inr k \<in> set (map row_key data)" using that by force
    then show ?thesis using k by (auto simp: in_successes)
  qed
  then have "\<forall>r \<in> set data. \<exists>k \<in> set ?ks. row_key r = Inr k"
    unfolding set_first_seen by blast
  then have all: "filter (\<lambda>r. \<exists>k \<in> set ?ks. row_key r = Inr k) data = data"
    unfolding filter_id_conv .
  have "map snd (group_spec data) = map (\<lambda>k. filter (\<lambda>r. row_key r = Inr k) data) ?ks"
    by (simp add: group_spec_def comp_def)
  then have "mset (concat (map snd (group_spec data)))
      = mset (filter (\<lambda>r. \<exists>k \<in> set ?ks. row_key r = Inr k) data)"
    using mset_concat_groups [OF distinct_first_seen, of row_key data "successes (map row_key data)"]
    by (simp only:)
  then show ?thesis by (simp only: all)
qed

lemma group_spec_keys: "map fst (group_spec data) = first_seen (successes (map row_key data))"
  by (simp add: group_spec_def comp_def)

lemma group_spec_nth:
  "i < length (group_spec data) \<Longrightarrow>
   snd (group_spec data ! i) = filter (\<lambda>r. row_key r = Inr (fst (group_spec data ! i))) data"
  by (simp add: group_spec_def)

lemma group_spec_unique:
  assumes "r \<in> set data" "row_key r = Inr k"
  shows "\<exists>!i. i < length (group_spec data) \<and> r \<in> set (snd (group_spec data ! i))"
proof -
  let ?ks = "first_seen (successes (map row_key data))"
  have len: "length (group_spec data) = length ?ks" by (simp add: group_spec_def)
  have mem: "r \<in> set (snd (group_spec data ! i)) \<longleftrightarrow> ?ks ! i = k" if "i < length ?ks" for i
    using that assms by (auto simp: group_spec_def)
  have "k \<in> set ?ks" using assms by (force simp: set_first_seen in_successes)
  then obtain i where i: "i < length ?ks" "?ks ! i = k" by (auto simp: in_set_conv_nth)
  show ?thesis
  proof (rule ex1I [of _ i])
    show "i < length (group_spec data) \<and> r \<in> set (snd (group_spec data ! i))"
      using i mem len by simp
  next
    fix j assume "j < length (group_spec data) \<and> r \<in> set (snd (group_spec data ! j))"
    then have "j < length ?ks" "?ks ! j = k" using mem len by auto
    then show "j = i" using i distinct_first_seen [of "successes (map row_key data)"]
      using nth_eq_iff_index_eq [of "first_seen (successes (map row_key data))" j i] by simp
  qed
qed

lemma first_seen_sorted:
  "sorted_wrt (\<lambda>a b. length (takeWhile (\<lambda>x. x \<noteq> a) xs) < length (takeWhile (\<lambda>x. x \<noteq> b) xs))
     (first_seen xs)"
proof (induction xs)
  case Nil
  then show ?case by simp
next
  case (Cons x xs)
  have "sorted_wrt (\<lambda>a b. length (takeWhile (\<lambda>y. y \<noteq> a) xs) < length (takeWhile (\<lambda>y. y \<noteq> b) xs))
          (removeAll x (first_seen xs))"
    using Cons by (simp add: removeAll_filter_not_eq sorted_wrt_filter)
  then have "sorted_wrt (\<lambda>a b. length (takeWhile (\<lambda>y. y \<noteq> a) (x # xs))
                 < length (takeWhile (\<lambda>y. y \<noteq> b) (x # xs)))
          (removeAll x (first_seen xs))"
    by (rule sorted_wrt_mono_rel [rotated]) auto
  then show ?case by auto
qed

lemma first_pos_keys:
  "\<forall>r \<in> set data. \<exists>k. row_key r = Inr k \<Longrightarrow>
   first_pos k data = length (takeWhile (\<lambda>x. x \<noteq> k) (successes (map row_key data)))"
  by (induction data) (auto simp: first_pos_def)

lemma group_spec_first_pos:
  assumes "\<forall>r \<in> set data. \<exists>k. row_key r = Inr k"
  shows "sorted_wrt (\<lambda>a b. first_pos a data < first_pos b data) (map fst (group_spec data))"
  using first_seen_sorted [of "successes (map row_key data)"] assms
  by (simp add: group_spec_keys first_pos_keys)

lemma all_valid_no_error:
  "\<forall>r \<in> set data. \<exists>k. row_key r = Inr k \<Longrightarrow> first_error (map row_key data) = None"
  by (auto simp: first_error_None)


lemmas key_eval = row_key_def getitem_def createKey_def lower_def lower_char_def
  ascii_uppercase_def ascii_lowercase_def

lemmas dict_eval = createDictionary_def createDictionary_body_def dict_append_def
  dict_getitem_def setdefault_def

text \<open>
  C4. When the name of every row yields a key, \<open>createDictionary\<close> succeeds and its groups
  partition the input: the rows of all groups together are the input rows as a multiset,
  the keys of the table are distinct, every input row lies in exactly one group, and every
  row of a group has the key of that group.
\<close>

theorem createDictionary_partition:
  assumes "\<forall>r \<in> set data. \<exists>k. row_key r = Inr k"
  shows "\<exists>d. createDictionary data = Inr d
           \<and> mset (concat (map snd d)) = mset data
           \<and> distinct (map fst d)
           \<and> (\<forall>r \<in> set data. \<exists>!i. i < length d \<and> r \<in> set (snd (d ! i)))
           \<and> (\<forall>i < length d. \<forall>r \<in> set (snd (d ! i)). row_key r = Inr (fst (d ! i)))"
proof -
  have run: "createDictionary data = Inr (group_spec data)"
    using assms by (simp add: createDictionary_eq all_valid_no_error)
  have m: "mset (concat (map snd (group_spec data))) = mset data"
    using assms by (rule group_spec_mset)
  have d: "distinct (map fst (group_spec data))"
    by (simp add: group_spec_keys distinct_first_seen)
  have u: "\<exists>!i. i < length (group_spec data) \<and> r \<in> set (snd (group_spec data ! i))"
    if "r \<in> set data" for r
  proof -
    from assms that have "\<exists>k. row_key r = Inr k" by (rule bspec)
    then obtain k where "row_key r = Inr k" ..
    with that show ?thesis by (rule group_spec_unique)
  qed
  have k: "row_key r = Inr (fst (group_spec data ! i))"
    if "i < length (group_spec data)" "r \<in> set (snd (group_spec data ! i))" for i r
    using that by (simp add: group_spec_nth)
  show ?thesis using run m d u k by blast
qed

theorem createDictionary_partition_witness:
  "row_key [''PID1'', ''POND^AMY'', ''F''] = Inr ''pond^amy''
   \<and> row_key [''PID2'', ''Williams^Rory''] = Inr ''williams^rory''
   \<and> row_key [''PID3'', ''pond^amy^j''] = Inr ''pond^amy''
   \<and> createDictionary
         [[''PID1'', ''POND^AMY'', ''F''], [''PID2'', ''Williams^Rory''], [''PID3'', ''pond^amy^j'']]
       = Inr [(''pond^amy'', [[''PID1'', ''POND^AMY'', ''F''], [''PID3'', ''pond^amy^j'']]),
              (''williams^rory'', [[''PID2'', ''Williams^Rory'']])]
   \<and> (\<exists>d. createDictionary
             [[''PID1'', ''POND^AMY'', ''F''], [''PID2'', ''Williams^Rory''], [''PID3'', ''pond^amy^j'']]
           = Inr d
         \<and> mset (concat (map snd d))
           = mset [[''PID1'', ''POND^AMY'', ''F''], [''PID2'', ''Williams^Rory''], [''PID3'', ''pond^amy^j'']])"
proof -
  have h: "\<forall>r \<in> set [[''PID1'', ''POND^AMY'', ''F''], [''PID2'', ''Williams^Rory''],
             [''PID3'', ''pond^amy^j'']]. \<exists>k. row_key r = Inr k"
    by (simp add: key_eval)
  show ?thesis using createDictionary_partition [OF h]
    by (simp add: key_eval dict_eval)
qed

text \<open>
  C5. When the name of every row yields a key, the keys of the table built by
  \<open>createDictionary\<close> are the keys of the rows in the order of their first occurrence
  (a key whose first row comes earlier in the input comes earlier in the table), and
  every group holds the rows with its key in the order of the input.
\<close>

theorem createDictionary_order:
  assumes "\<forall>r \<in> set data. \<exists>k. row_key r = Inr k"
  shows "\<exists>d. createDictionary data = Inr d
           \<and> map fst d = first_seen (successes (map row_key data))
           \<and> map Inr (map fst d) = first_seen (map row_key data)
           \<and> sorted_wrt (\<lambda>a b. first_pos a data < first_pos b data) (map fst d)
           \<and> (\<forall>i < length d. snd (d ! i) = filter (\<lambda>r. row_key r = Inr (fst (d ! i))) data)"
proof -
  have run: "createDictionary data = Inr (group_spec data)"
    using assms by (simp add: createDictionary_eq all_valid_no_error)
  have inr: "map row_key data = map Inr (successes (map row_key data))"
    using assms by (induction data) auto
  have fs: "first_seen (map Inr ks) = map Inr (first_seen ks)" for ks :: "string list"
    by (induction ks) (auto simp: removeAll_filter_not_eq filter_map comp_def)
  have "first_seen (map row_key data) = first_seen (map Inr (successes (map row_key data)))"
    using inr by (rule arg_cong)
  then have k2: "map Inr (map fst (group_spec data)) = first_seen (map row_key data)"
    by (simp only: fs group_spec_keys)
  show ?thesis
    using run k2 group_spec_keys [of data] group_spec_first_pos [OF assms] group_spec_nth [of _ data]
    by blast
qed

theorem createDictionary_order_witness:
  "createDictionary
     [[''PID1'', ''WILLIAMS^RORY''], [''PID2'', ''POND^AMY''], [''PID3'', ''Williams^Rory^A''],
      [''PID4'', ''pond^amy'']]
     = Inr [(''williams^rory'', [[''PID1'', ''WILLIAMS^RORY''], [''PID3'', ''Williams^Rory^A'']]),
            (''pond^amy'', [[''PID2'', ''POND^AMY''], [''PID4'', ''pond^amy'']])]
   \<and> first_seen (successes (map row_key
       [[''PID1'', ''WILLIAMS^RORY''], [''PID2'', ''POND^AMY''], [''PID3'', ''Williams^Rory^A''],
        [''PID4'', ''pond^amy'']])) = [''williams^rory'', ''pond^amy'']
   \<and> (\<exists>d. createDictionary
       [[''PID1'', ''WILLIAMS^RORY''], [''PID2'', ''POND^AMY''], [''PID3'', ''Williams^Rory^A''],
        [''PID4'', ''pond^amy'']] = Inr d
        \<and> map fst d = [''williams^rory'', ''pond^amy''])"
proof -
  have h: "\<forall>r \<in> set [[''PID1'', ''WILLIAMS^RORY''], [''PID2'', ''POND^AMY''],
      [''PID3'', ''Williams^Rory^A''], [''PID4'', ''pond^amy'']]. \<exists>k. row_key r = Inr k"
    by (simp add: key_eval)
  show ?thesis using createDictionary_order [OF h]
    by (simp add: key_eval dict_eval)
qed

section \<open>Rows of any length\<close>

lemma first_error_append:
  "first_error (xs @ ys) = (case first_error xs of Some e \<Rightarrow> Some e | None \<Rightarrow> first_error ys)"
  by (induction xs rule: first_error.induct) auto

lemma row_key_short: "length row < 2 \<Longrightarrow> row_key row = Inl IndexError"
  by (simp add: row_key_def getitem_def)

lemma row_key_long: "2 \<le> length row \<Longrightarrow> row_key row = createKey (row ! 1)"
  by (simp add: row_key_def getitem_def)

lemma row_key_Inr_length: "row_key row = Inr k \<Longrightarrow> 2 \<le> length row"
  by (cases "length row < 2") (simp_all add: row_key_short)

lemma printOutput_loop_lines:
  "(k, v) \<in> set d \<Longrightarrow> r \<in> set v \<Longrightarrow> join '','' r \<in> set (printOutput_loop n d)"
  by (induction n d rule: printOutput_loop.induct) auto

lemma group_spec_member:
  assumes "r \<in> set data" "row_key r = Inr k"
  shows "(k, filter (\<lambda>x. row_key x = Inr k) data) \<in> set (group_spec data)"
proof -
  have "Inr k \<in> set (map row_key data)" using assms by force
  then have "k \<in> set (first_seen (successes (map row_key data)))"
    by (simp add: set_first_seen in_successes)
  then show ?thesis by (auto simp: group_spec_def)
qed

text \<open>
  C9. No function checks the number of fields of a row. A row with fewer than two fields
  that follows rows with good names makes \<open>createDictionary\<close> fail with \<open>IndexError\<close>.
  For a row with two fields or more the key is that of the second field, whatever the
  number of fields: when \<open>createDictionary\<close> succeeds, every row of the input has at least
  two fields, lies in the group of the key of its second field, and \<open>printOutput\<close> prints
  the line of all its fields joined by commas.
\<close>

theorem createDictionary_field_count:
  "(length row < 2 \<and> (\<forall>r \<in> set pre. \<exists>k. row_key r = Inr k) \<longrightarrow>
      createDictionary (pre @ row # post) = Inl IndexError)
   \<and> (2 \<le> length row \<longrightarrow> row_key row = createKey (row ! 1))
   \<and> (createDictionary data = Inr d \<and> row \<in> set data \<longrightarrow>
        2 \<le> length row
        \<and> (\<exists>k v. createKey (row ! 1) = Inr k \<and> (k, v) \<in> set d \<and> row \<in> set v)
        \<and> join '','' row \<in> set (printOutput d))
   \<and> (2 \<le> length row \<and> createKey (row ! 1) = Inr k \<longrightarrow>
        createDictionary [row] = Inr [(k, [row])]
        \<and> printOutput [(k, [row])] = [''0:'', join '','' row])"
proof -
  have a: "createDictionary (pre @ row # post) = Inl IndexError"
    if "length row < 2" "\<forall>r \<in> set pre. \<exists>k. row_key r = Inr k"
    using that
    by (simp add: createDictionary_eq first_error_append all_valid_no_error row_key_short)
  have c: "2 \<le> length row
        \<and> (\<exists>k v. createKey (row ! 1) = Inr k \<and> (k, v) \<in> set d \<and> row \<in> set v)
        \<and> join '','' row \<in> set (printOutput d)"
    if run: "createDictionary data = Inr d" and mem: "row \<in> set data"
  proof -
    from run have ok: "first_error (map row_key data) = None" and d: "d = group_spec data"
      by (auto simp: createDictionary_eq split: option.splits)
    from ok mem obtain k where k: "row_key row = Inr k"
      by (auto simp: first_error_None)
    then have len: "2 \<le> length row" by (rule row_key_Inr_length)
    let ?v = "filter (\<lambda>x. row_key x = Inr k) data"
    have g: "(k, ?v) \<in> set d" using mem k d by (simp add: group_spec_member)
    have r: "row \<in> set ?v" using mem k by simp
    have "join '','' row \<in> set (printOutput d)"
      using g r unfolding printOutput_def by (rule printOutput_loop_lines)
    moreover have "createKey (row ! 1) = Inr k" using k len by (simp add: row_key_long)
    ultimately show ?thesis using len g r by blast
  qed
  have e: "createDictionary [row] = Inr [(k, [row])]
        \<and> printOutput [(k, [row])] = [''0:'', join '','' row]"
    if "2 \<le> length row" "createKey (row ! 1) = Inr k"
    using that
    by (simp add: createDictionary_def createDictionary_body_def dict_append_def
        dict_getitem_def setdefault_def row_key_long printOutput_def str_nat.simps digits_def)
  show ?thesis using a c e row_key_long by blast
qed

theorem createDictionary_field_count_witness:
  "createDictionary [[''PID1'', ''POND^AMY''], [''PID2'']] = Inl IndexError
   \<and> createDictionary [[]] = Inl IndexError
   \<and> createDictionary [[''PID7'', ''Pond^Amy'', ''F'', ''19890224'', ''extra'', ''more'']]
       = Inr [(''pond^amy'', [[''PID7'', ''Pond^Amy'', ''F'', ''19890224'', ''extra'', ''more'']])]
   \<and> printOutput [(''pond^amy'', [[''PID7'', ''Pond^Amy'', ''F'', ''19890224'', ''extra'', ''more'']])]
       = [''0:'', ''PID7,Pond^Amy,F,19890224,extra,more'']
   \<and> createDictionary [[''PID8'', ''Pond^Amy'']] = Inr [(''pond^amy'', [[''PID8'', ''Pond^Amy'']])]
   \<and> printOutput [(''pond^amy'', [[''PID8'', ''Pond^Amy'']])] = [''0:'', ''PID8,Pond^Amy'']"
  using createDictionary_field_count
          [of "[''PID2'']" "[[''PID1'', ''POND^AMY'']]" "[]" "[]" "[]" "''x''"]
        createDictionary_field_count [of "[]" "[]" "[]" "[]" "[]" "''x''"]
        createDictionary_field_count
          [of "[''PID7'', ''Pond^Amy'', ''F'', ''19890224'', ''extra'', ''more'']" "[]" "[]"
              "[]" "[]" "''pond^amy''"]
        createDictionary_field_count [of "[''PID8'', ''Pond^Amy'']" "[]" "[]" "[]" "[]" "''pond^amy''"]
  by (simp add: key_eval)

section \<open>Sorting the groups\<close>

lemma compute_keys_eq:
  "compute_keys f v =
     (case first_error (map f v) of
        Some e \<Rightarrow> Inl e
      | None \<Rightarrow> Inr (zip (successes (map f v)) v))"
  by (induction v) (auto split: sum.splits option.splits)

lemma compute_keys_valid:
  "\<forall>x \<in> set v. f x = Inr (g x) \<Longrightarrow> compute_keys f v = Inr (map (\<lambda>x. (g x, x)) v)"
  by (induction v) auto

lemma insort_key_decorated:
  "insort_key fst (g x, x) (map (\<lambda>x. (g x, x)) ys) = map (\<lambda>x. (g x, x)) (insort_key g x ys)"
  by (induction ys) auto

lemma sort_key_decorated:
  "sort_key fst (map (\<lambda>x. (g x, x)) xs) = map (\<lambda>x. (g x, x)) (sort_key g xs)"
  by (induction xs) (auto simp: insort_key_decorated)

lemma sort_reverse_valid:
  assumes "\<forall>x \<in> set v. f x = Inr (g x)"
  shows "sort_reverse f v = Inr (rev (sort_key g (rev v)))"
proof -
  have "sort_key fst (rev (map (\<lambda>x. (g x, x)) v)) = map (\<lambda>x. (g x, x)) (sort_key g (rev v))"
    by (simp only: rev_map sort_key_decorated)
  then show ?thesis
    using compute_keys_valid [OF assms]
    by (simp add: sort_reverse_def rev_map comp_def)
qed

lemma sort_reverse_fail:
  "first_error (map f v) = Some e \<Longrightarrow> sort_reverse f v = Inl e"
  by (simp add: sort_reverse_def compute_keys_eq)

lemma desc_sorted:
  "sorted_wrt (\<lambda>a b. g b \<le> g a) (rev (sort_key g xs))"
proof -
  have "sorted_wrt (\<lambda>a b. g a \<le> g b) (sort_key g xs)"
    using sorted_sort_key [of g xs] by (simp add: sorted_map)
  then show ?thesis by (simp add: sorted_wrt_rev)
qed

lemma desc_stable:
  "filter (\<lambda>y. g y = n) (rev (sort_key g (rev xs))) = filter (\<lambda>y. g y = n) xs"
  by (simp add: rev_filter [symmetric] sort_key_stable)

lemma pid_key_num: "\<exists>n. pid_key r = Inr n \<Longrightarrow> pid_key r = Inr (pid_num r)"
  by (auto simp: pid_num_def)

lemma sortDict_valid:
  assumes "\<forall>r \<in> set (concat (map snd d)). \<exists>n. pid_key r = Inr n"
  shows "sortDictbyPidDesc d = Inr (map (\<lambda>(k, v). (k, rev (sort_key pid_num (rev v)))) d)"
  using assms
proof (induction d)
  case Nil
  then show ?case by simp
next
  case (Cons kv d)
  obtain k v where kv: "kv = (k, v)" by (cases kv)
  have "\<forall>r \<in> set v. pid_key r = Inr (pid_num r)"
    using Cons.prems kv by (auto intro: pid_key_num)
  then have "sort_reverse pid_key v = Inr (rev (sort_key pid_num (rev v)))"
    by (rule sort_reverse_valid)
  moreover have "sortDictbyPidDesc d = Inr (map (\<lambda>(k, v). (k, rev (sort_key pid_num (rev v)))) d)"
    using Cons by simp
  ultimately show ?case by (simp add: kv)
qed

lemma sortDict_fail:
  "first_error (map pid_key (concat (map snd d))) = Some e \<Longrightarrow> sortDictbyPidDesc d = Inl e"
proof (induction d)
  case Nil
  then show ?case by simp
next
  case (Cons kv d)
  obtain k v where kv: "kv = (k, v)" by (cases kv)
  show ?case
  proof (cases "first_error (map pid_key v)")
    case None
    then have "\<forall>r \<in> set v. \<exists>n. pid_key r = Inr n" by (auto simp: first_error_None)
    then have "\<forall>r \<in> set v. pid_key r = Inr (pid_num r)" by (auto intro: pid_key_num)
    then have "sort_reverse pid_key v = Inr (rev (sort_key pid_num (rev v)))"
      by (rule sort_reverse_valid)
    moreover have "sortDictbyPidDesc d = Inl e"
      using Cons None kv by (simp add: first_error_append)
    ultimately show ?thesis by (simp add: kv)
  next
    case (Some e')
    then have "e' = e" using Cons.prems kv by (simp add: first_error_append)
    then show ?thesis using Some by (simp add: kv sort_reverse_fail)
  qed
qed

lemmas sort_eval = pid_key_def getitem_def sort_reverse_def

lemmas int_eval = extractNumber_def py_int_def isspace_def isbody_def isdigit_def digits_def
  decimal_def digit_value_def Let_def

text \<open>
  C6. When the id of every row of a table yields a number, \<open>sortDictbyPidDesc\<close> succeeds
  with a table of the same keys in the same order; each group keeps its rows (as a
  multiset), has them in descending order of their numbers, and rows with equal numbers
  stay in their former order.
\<close>

theorem sortDictbyPidDesc_contract:
  assumes "\<forall>r \<in> set (concat (map snd d)). \<exists>n. pid_key r = Inr n"
  shows "\<exists>d'. sortDictbyPidDesc d = Inr d'
           \<and> map fst d' = map fst d
           \<and> (\<forall>i < length d.
                 mset (snd (d' ! i)) = mset (snd (d ! i))
                 \<and> sorted_wrt (\<lambda>a b. pid_num b \<le> pid_num a) (snd (d' ! i))
                 \<and> (\<forall>n. filter (\<lambda>r. pid_key r = Inr n) (snd (d' ! i))
                        = filter (\<lambda>r. pid_key r = Inr n) (snd (d ! i))))"
proof -
  let ?d' = "map (\<lambda>(k, v). (k, rev (sort_key pid_num (rev v)))) d"
  have run: "sortDictbyPidDesc d = Inr ?d'" using assms by (rule sortDict_valid)
  have keys: "map fst ?d' = map fst d" by (simp add: comp_def case_prod_beta)
  have grp: "snd (?d' ! i) = rev (sort_key pid_num (rev (snd (d ! i))))" if "i < length d" for i
    using that by (simp add: case_prod_beta)
  have m: "mset (snd (?d' ! i)) = mset (snd (d ! i))" if "i < length d" for i
    by (simp only: grp [OF that] mset_rev mset_sort)
  have s: "sorted_wrt (\<lambda>a b. pid_num b \<le> pid_num a) (snd (?d' ! i))" if "i < length d" for i
    using that by (simp only: grp desc_sorted)
  have st: "filter (\<lambda>r. pid_key r = Inr n) (snd (?d' ! i)) = filter (\<lambda>r. pid_key r = Inr n) (snd (d ! i))"
    if i: "i < length d" for i n
  proof -
    have valid: "pid_key r = Inr (pid_num r)" if "r \<in> set (snd (d ! i))" for r
    proof -
      have "r \<in> set (concat (map snd d))" using that i by (auto intro!: bexI [of _ "d ! i"])
      with assms have "\<exists>n. pid_key r = Inr n" by (rule bspec)
      then show ?thesis by (rule pid_key_num)
    qed
    have eq: "filter (\<lambda>r. pid_key r = Inr n) xs = filter (\<lambda>r. pid_num r = n) xs"
      if "set xs \<subseteq> set (snd (d ! i))" for xs
      using that valid by (intro filter_cong) auto
    have "filter (\<lambda>r. pid_key r = Inr n) (rev (sort_key pid_num (rev (snd (d ! i)))))
        = filter (\<lambda>r. pid_num r = n) (rev (sort_key pid_num (rev (snd (d ! i)))))"
      by (rule eq) simp
    also have "\<dots> = filter (\<lambda>r. pid_num r = n) (snd (d ! i))" by (rule desc_stable)
    also have "\<dots> = filter (\<lambda>r. pid_key r = Inr n) (snd (d ! i))" by (rule eq [symmetric]) simp
    finally show ?thesis by (simp only: grp [OF i])
  qed
  show ?thesis using run keys m s st by blast
qed

theorem sortDictbyPidDesc_contract_witness:
  "pid_key [''PID1'', ''a''] = Inr 1 \<and> pid_key [''PID007'', ''b''] = Inr 7
   \<and> pid_key [''PID4'', ''c''] = Inr 4 \<and> pid_key [''PID7'', ''d''] = Inr 7
   \<and> pid_key [''PID10'', ''e''] = Inr 10 \<and> pid_key [''PID9'', ''f''] = Inr 9
   \<and> sortDictbyPidDesc
        [(''x'', [[''PID1'', ''a''], [''PID007'', ''b''], [''PID4'', ''c''], [''PID7'', ''d'']]),
         (''w'', [[''PID9'', ''f''], [''PID10'', ''e'']])]
     = Inr [(''x'', [[''PID007'', ''b''], [''PID7'', ''d''], [''PID4'', ''c''], [''PID1'', ''a'']]),
            (''w'', [[''PID10'', ''e''], [''PID9'', ''f'']])]
   \<and> (\<exists>d'. sortDictbyPidDesc
        [(''x'', [[''PID1'', ''a''], [''PID007'', ''b''], [''PID4'', ''c''], [''PID7'', ''d'']]),
         (''w'', [[''PID9'', ''f''], [''PID10'', ''e'']])] = Inr d'
        \<and> map fst d' = [''x'', ''w''])"
proof -
  have k: "pid_key [''PID1'', ''a''] = Inr 1" "pid_key [''PID007'', ''b''] = Inr 7"
    "pid_key [''PID4'', ''c''] = Inr 4" "pid_key [''PID7'', ''d''] = Inr 7"
    "pid_key [''PID10'', ''e''] = Inr 10" "pid_key [''PID9'', ''f''] = Inr 9"
    by (simp_all add: int_eval sort_eval)
  have h: "\<forall>r \<in> set (concat (map snd
      [(''x'', [[''PID1'', ''a''], [''PID007'', ''b''], [''PID4'', ''c''], [''PID7'', ''d'']]),
       (''w'', [[''PID9'', ''f''], [''PID10'', ''e'']])])). \<exists>n. pid_key r = Inr n"
    by (simp add: k)
  have e: "sortDictbyPidDesc
        [(''x'', [[''PID1'', ''a''], [''PID007'', ''b''], [''PID4'', ''c''], [''PID7'', ''d'']]),
         (''w'', [[''PID9'', ''f''], [''PID10'', ''e'']])]
     = Inr [(''x'', [[''PID007'', ''b''], [''PID7'', ''d''], [''PID4'', ''c''], [''PID1'', ''a'']]),
            (''w'', [[''PID10'', ''e''], [''PID9'', ''f'']])]"
    by (simp add: sort_reverse_def k)
  show ?thesis using sortDictbyPidDesc_contract [OF h] k e by simp
qed

section \<open>The whole run\<close>

lemmas print_eval = printOutput_def str_nat.simps digits_def

lemma first_error_mem: "first_error xs = Some e \<Longrightarrow> Inl e \<in> set xs"
  by (induction xs rule: first_error.induct) auto

lemma py_int_cases: "py_int s = Inl ValueError \<or> (\<exists>n. py_int s = Inr n)"
  unfolding py_int_def Let_def by (rule if_split [THEN iffD2]) blast

lemma py_int_error: "py_int s = Inl e \<Longrightarrow> e = ValueError"
  using py_int_cases [of s] by auto

lemma pid_key_error: "2 \<le> length r \<Longrightarrow> pid_key r = Inl e \<Longrightarrow> e = ValueError"
  by (cases r) (simp_all add: pid_key_def getitem_def extractNumber_def py_int_error)

lemma group_spec_rows:
  assumes "\<forall>r \<in> set data. \<exists>k. row_key r = Inr k"
  shows "set (concat (map snd (group_spec data))) = set data"
  using group_spec_mset [OF assms] by (rule mset_eq_setD)

text \<open>
  C3, as the script behaves. A run has one of three outcomes. If the name of some row is
  malformed (or the row has no second field), the run fails before anything is printed.
  If all names are good and the id of some row is malformed, the run prints the whole
  first report and the marker line and then fails with \<open>ValueError\<close>; nothing of the second
  report is printed. Otherwise both reports are printed around the marker line.
\<close>

theorem main_outcomes:
  "((\<exists>r \<in> set data. \<exists>e. row_key r = Inl e) \<longrightarrow> (\<exists>e. main data = ([], Inl e)))
   \<and> ((\<forall>r \<in> set data. \<exists>k. row_key r = Inr k) \<and> (\<exists>r \<in> set data. \<exists>e. pid_key r = Inl e) \<longrightarrow>
        (\<exists>d. createDictionary data = Inr d
           \<and> main data = (printOutput d @ [marker], Inl ValueError)))
   \<and> ((\<forall>r \<in> set data. \<exists>k. row_key r = Inr k) \<and> (\<forall>r \<in> set data. \<exists>n. pid_key r = Inr n) \<longrightarrow>
        (\<exists>d d'. createDictionary data = Inr d \<and> sortDictbyPidDesc d = Inr d'
           \<and> main data = (printOutput d @ [marker] @ printOutput d', Inr ())))"
proof -
  have a: "\<exists>e. main data = ([], Inl e)" if "\<exists>r \<in> set data. \<exists>e. row_key r = Inl e"
  proof -
    from that obtain r e where "r \<in> set data" "row_key r = Inl e" by auto
    then have "Inl e \<in> set (map row_key data)" by force
    then have "first_error (map row_key data) \<noteq> None"
      unfolding first_error_None by blast
    then obtain e where "first_error (map row_key data) = Some e" by auto
    then show ?thesis by (simp add: main_def createDictionary_eq)
  qed
  have b: "\<exists>d. createDictionary data = Inr d
           \<and> main data = (printOutput d @ [marker], Inl ValueError)"
    if names: "\<forall>r \<in> set data. \<exists>k. row_key r = Inr k"
      and ids: "\<exists>r \<in> set data. \<exists>e. pid_key r = Inl e"
  proof -
    have run: "createDictionary data = Inr (group_spec data)"
      using names by (simp add: createDictionary_eq all_valid_no_error)
    have rows: "set (concat (map snd (group_spec data))) = set data"
      using names by (rule group_spec_rows)
    from ids obtain r0 e0 where r0: "r0 \<in> set data" "pid_key r0 = Inl e0" by auto
    from r0(1) have "r0 \<in> set (concat (map snd (group_spec data)))" unfolding rows .
    then have "pid_key r0 \<in> set (map pid_key (concat (map snd (group_spec data))))"
      unfolding set_map by (rule imageI)
    then have "Inl e0 \<in> set (map pid_key (concat (map snd (group_spec data))))"
      unfolding r0(2) .
    then have "first_error (map pid_key (concat (map snd (group_spec data)))) \<noteq> None"
      unfolding first_error_None by blast
    then obtain e where e: "first_error (map pid_key (concat (map snd (group_spec data)))) = Some e"
      by auto
    then have "Inl e \<in> set (map pid_key (concat (map snd (group_spec data))))"
      by (rule first_error_mem)
    then obtain r where rr: "r \<in> set (concat (map snd (group_spec data)))" "pid_key r = Inl e"
      unfolding set_map by (elim imageE) simp
    from rr(1) have "r \<in> set data" unfolding rows .
    with rr(2) have r: "r \<in> set data" "pid_key r = Inl e" by simp_all
    from names r(1) have "\<exists>k. row_key r = Inr k" by (rule bspec)
    then have "2 \<le> length r" by (auto dest: row_key_Inr_length)
    then have "e = ValueError" using r(2) by (rule pid_key_error)
    then have "sortDictbyPidDesc (group_spec data) = Inl ValueError"
      using sortDict_fail [OF e] by simp
    then show ?thesis using run by (simp add: main_def)
  qed
  have c: "\<exists>d d'. createDictionary data = Inr d \<and> sortDictbyPidDesc d = Inr d'
           \<and> main data = (printOutput d @ [marker] @ printOutput d', Inr ())"
    if names: "\<forall>r \<in> set data. \<exists>k. row_key r = Inr k"
      and ids: "\<forall>r \<in> set data. \<exists>n. pid_key r = Inr n"
  proof -
    have run: "createDictionary data = Inr (group_spec data)"
      using names by (simp add: createDictionary_eq all_valid_no_error)
    have rows: "set (concat (map snd (group_spec data))) = set data"
      using names by (rule group_spec_rows)
    have "\<forall>r \<in> set (concat (map snd (group_spec data))). \<exists>n. pid_key r = Inr n"
      using ids unfolding rows .
    then have "sortDictbyPidDesc (group_spec data)
        = Inr (map (\<lambda>(k, v). (k, rev (sort_key pid_num (rev v)))) (group_spec data))"
      by (rule sortDict_valid)
    then show ?thesis using run by (simp add: main_def)
  qed
  show ?thesis using a b c by blast
qed

theorem main_outcomes_witness:
  "main [[''PID1'', ''POND^AMY''], [''PID2'', ''POND'']]
     = ([], Inl (Exception ''Name is not in a proper structure''))
   \<and> (\<exists>e. main [[''PID1'', ''POND^AMY''], [''PID2'', ''POND'']] = ([], Inl e))
   \<and> main [[''PID1'', ''POND^AMY''], [''PIDx'', ''WILLIAMS^RORY'']]
     = ([''0:'', ''PID1,POND^AMY'', ''1:'', ''PIDx,WILLIAMS^RORY'',
         ''Different version, sorted by PID number''], Inl ValueError)
   \<and> main [[''PID1'', ''POND^AMY''], [''PID2'', ''pond^amy'']]
     = ([''0:'', ''PID1,POND^AMY'', ''PID2,pond^amy'',
         ''Different version, sorted by PID number'',
         ''0:'', ''PID2,pond^amy'', ''PID1,POND^AMY''], Inr ())"
proof -
  have h: "\<exists>r \<in> set [[''PID1'', ''POND^AMY''], [''PID2'', ''POND'']]. \<exists>e. row_key r = Inl e"
    by (simp add: key_eval)
  have t: "\<exists>e. main [[''PID1'', ''POND^AMY''], [''PID2'', ''POND'']] = ([], Inl e)"
    using main_outcomes [of "[[''PID1'', ''POND^AMY''], [''PID2'', ''POND'']]", THEN conjunct1] h
    by (rule mp)
  have e1: "main [[''PID1'', ''POND^AMY''], [''PID2'', ''POND'']]
     = ([], Inl (Exception ''Name is not in a proper structure''))"
    by (simp add: main_def key_eval dict_eval)
  have e2: "main [[''PID1'', ''POND^AMY''], [''PIDx'', ''WILLIAMS^RORY'']]
     = ([''0:'', ''PID1,POND^AMY'', ''1:'', ''PIDx,WILLIAMS^RORY'',
         ''Different version, sorted by PID number''], Inl ValueError)"
    by (simp add: main_def key_eval dict_eval print_eval int_eval sort_eval marker_def)
  have e3: "main [[''PID1'', ''POND^AMY''], [''PID2'', ''pond^amy'']]
     = ([''0:'', ''PID1,POND^AMY'', ''PID2,pond^amy'',
         ''Different version, sorted by PID number'',
         ''0:'', ''PID2,pond^amy'', ''PID1,POND^AMY''], Inr ())"
    by (simp add: main_def key_eval dict_eval print_eval int_eval sort_eval marker_def)
  show ?thesis using t e1 e2 e3 by (intro conjI)
qed

text \<open>
  C3, as stated, asks for no output at all when an id is malformed. Here the first report
  and the marker line are printed before the run fails.
\<close>

theorem main_partial_output:
  "main [[''PID1'', ''POND^AMY'', ''F'', ''19890224''], [''PIDx'', ''WILLIAMS^RORY'', ''M'', ''19881102'']]
     = ([''0:'', ''PID1,POND^AMY,F,19890224'', ''1:'', ''PIDx,WILLIAMS^RORY,M,19881102'',
         ''Different version, sorted by PID number''], Inl ValueError)"
  by (simp add: main_def key_eval dict_eval print_eval int_eval sort_eval marker_def)

text \<open>
  C8. The run on the four records of the example prints the first report, the marker line
  and the second report, with the group of \<open>POND^AMY\<close> in descending order of ids.
\<close>

theorem main_example:
  "main [[''PID1'', ''POND^AMY'', ''F'', ''19890224''],
         [''PID2'', ''WILLIAMS^RORY'', ''M'', ''19881102''],
         [''PID3'', ''POND^AMY'', ''F'', ''19890224''],
         [''PID4'', ''POND^AMY'', ''F'', ''20010911'']]
   = ([''0:'',
       ''PID1,POND^AMY,F,19890224'',
       ''PID3,POND^AMY,F,19890224'',
       ''PID4,POND^AMY,F,20010911'',
       ''1:'',
       ''PID2,WILLIAMS^RORY,M,19881102'',
       ''Different version, sorted by PID number'',
       ''0:'',
       ''PID4,POND^AMY,F,20010911'',
       ''PID3,POND^AMY,F,19890224'',
       ''PID1,POND^AMY,F,19890224'',
       ''1:'',
       ''PID2,WILLIAMS^RORY,M,19881102''], Inr ())"
  by (simp add: main_def key_eval dict_eval print_eval int_eval sort_eval marker_def)

text \<open>
  C10. For the empty input the table is empty, \<open>printOutput\<close> prints nothing, and the run
  succeeds and prints the marker line only.
\<close>

theorem main_empty:
  "createDictionary [] = Inr []
   \<and> printOutput [] = []
   \<and> main [] = ([''Different version, sorted by PID number''], Inr ())"
  by (simp add: main_def createDictionary_def printOutput_def marker_def)

section \<open>The number of an id\<close>





lemma sign_not_space: "\<not> isspace CHR ''+''" "\<not> isspace CHR ''-''"
  by (simp_all add: isspace_def)

lemma sign_not_body: "\<not> isbody CHR ''+''" "\<not> isbody CHR ''-''"
  by (simp_all add: isbody_def isdigit_def digits_def)






























end
